theory Spec2Isabelle
  imports Main "HOL-Library.Sublist" "HOL-Library.Char_ord" "HOL-Library.List_Lexorder"
    "HOL-Library.Multiset"
begin

section \<open>Strings\<close>

text \<open>
  A Python \<open>str\<close> is modelled as a \<open>string\<close>, one \<open>char\<close> per code point, for the
  code points 0 to 255. On these, \<open>str.isspace\<close>, \<open>str.lower\<close> and \<open>str.strip\<close> are the
  tables written out below.
\<close>

definition isspace :: "char \<Rightarrow> bool" where
  "isspace c =
     (let n = (of_char c :: nat)
      in (9 \<le> n \<and> n \<le> 13) \<or> (28 \<le> n \<and> n \<le> 32) \<or> n = 133 \<or> n = 160)"

definition lower_chr :: "char \<Rightarrow> char" where
  "lower_chr c =
     (let n = (of_char c :: nat)
      in if (65 \<le> n \<and> n \<le> 90) \<or> (192 \<le> n \<and> n \<le> 222 \<and> n \<noteq> 215)
         then char_of (n + 32) else c)"

definition lower :: "string \<Rightarrow> string" where
  "lower s = map lower_chr s"

definition lstrip :: "string \<Rightarrow> string" where
  "lstrip s = dropWhile isspace s"

definition rstrip :: "string \<Rightarrow> string" where
  "rstrip s = rev (dropWhile isspace (rev s))"

definition strip :: "string \<Rightarrow> string" where
  "strip s = rstrip (lstrip s)"

text \<open>\<open>contains p s\<close> is Python's \<open>p in s\<close> on strings: \<open>p\<close> occurs in \<open>s\<close> as a
  contiguous run.\<close>

fun contains :: "string \<Rightarrow> string \<Rightarrow> bool" where
  "contains p [] = (p = [])"
| "contains p (c # s) = (prefix p (c # s) \<or> contains p s)"

section \<open>Data model (core.models, as the application uses it)\<close>

datatype SearchProvider = TAVILY | GROQ | YOUTUBE

record SearchQuery =
  query :: string
  domains :: "string list"
  provider :: "SearchProvider option"
  limit :: int

record SearchResult =
  title :: string
  url :: "string option"
  snippet :: string
  result_provider :: SearchProvider
  metadata :: "(string \<times> string) list"

section \<open>The presentation layer (app.py)\<close>

record history_entry =
  h_query :: string
  h_provider :: string
  results_count :: nat
  timestamp :: int

record session_state =
  search_results :: "SearchResult list"
  search_history :: "history_entry list"
  last_query :: string

datatype ui_message =
    Error string
  | Spinner string
  | Success nat
  | Warning string

text \<open>
  The application around one run of the script: the Streamlit session state, the
  messages shown, the queries handed to \<open>search_service.search\<close> so far, and the state
  \<open>'w\<close> of the service behind it (its cache).
\<close>

record 'w app =
  session :: session_state
  shown :: "ui_message list"
  calls :: "SearchQuery list"
  world :: 'w

text \<open>
  \<open>search_service.search(search_query, use_cache=True)\<close> is a collaborator: it takes
  the query and the service state and either raises (\<open>Inl\<close>, with \<open>str(e)\<close>) or
  returns the results, with the new service state.
\<close>

type_synonym 'w service = "SearchQuery \<Rightarrow> bool \<Rightarrow> 'w \<Rightarrow> (string + SearchResult list) \<times> 'w"

definition init_session_state :: session_state where
  "init_session_state = \<lparr>search_results = [], search_history = [], last_query = []\<rparr>"

text \<open>The \<open>if\<close>/\<open>elif\<close> chain of \<open>perform_search\<close> under "Determine provider".\<close>

definition determine_provider :: "string \<Rightarrow> SearchProvider option" where
  "determine_provider prov =
     (if prov = ''Tavily'' then Some TAVILY
      else if prov = ''Groq'' then Some GROQ
      else if prov = ''YouTube'' then Some YOUTUBE
      else None)"

definition perform_search ::
  "'w service \<Rightarrow> int \<Rightarrow> string \<Rightarrow> string \<Rightarrow> int \<Rightarrow> string list \<Rightarrow> 'w app \<Rightarrow> 'w app" where
  "perform_search svc now qry prov num_results doms a =
     (if strip qry = [] then a\<lparr>shown := shown a @ [Error ''Please enter a search query'']\<rparr>
      else
        let search_provider = determine_provider prov;
            search_query = \<lparr>query = strip qry, domains = doms,
                             provider = search_provider, limit = num_results\<rparr>;
            a1 = a\<lparr>shown := shown a @ [Spinner prov], calls := calls a @ [search_query]\<rparr>
        in case svc search_query True (world a) of
             (Inr results, w') \<Rightarrow>
               a1\<lparr>session :=
                     \<lparr>search_results = results,
                      search_history =
                        take 10 (\<lparr>h_query = qry, h_provider = prov,
                                   results_count = length results, timestamp = now\<rparr>
                                 # search_history (session a)),
                      last_query = qry\<rparr>,
                   shown := shown a1 @
                     [if results \<noteq> [] then Success (length results)
                      else Warning ''No results found. Try a different query.''],
                   world := w'\<rparr>
           | (Inl e, w') \<Rightarrow>
               a1\<lparr>shown := shown a1 @ [Error (''Search failed: '' @ e)], world := w'\<rparr>)"

text \<open>The options of the "Provider" select box.\<close>

definition provider_options :: "string list" where
  "provider_options = [''Auto'', ''Tavily'', ''Groq'', ''YouTube'']"

definition video_patterns :: "string list" where
  "video_patterns = [''youtube.com'', ''youtu.be'']"

text \<open>"Auto-detect provider if needed" in \<open>render_search_interface\<close>.\<close>

definition auto_detect :: "string \<Rightarrow> string \<Rightarrow> string" where
  "auto_detect prov qry =
     (if prov = ''Auto''
      then (if list_ex (\<lambda>pattern. contains pattern (lower qry)) video_patterns
            then ''YouTube'' else ''Tavily'')
      else prov)"

text \<open>"Handle search" in \<open>render_search_interface\<close>, given the widgets' values.\<close>

definition render_search_interface ::
  "'w service \<Rightarrow> int \<Rightarrow> bool \<Rightarrow> string \<Rightarrow> string \<Rightarrow> int \<Rightarrow> string list \<Rightarrow> 'w app \<Rightarrow> 'w app" where
  "render_search_interface svc now search_button qry prov num_results doms a =
     (if search_button \<and> strip qry \<noteq> []
      then perform_search svc now qry (auto_detect prov qry) num_results doms a
      else a)"

section \<open>The search service (services.search_service)\<close>

text \<open>
  The service, its cache store and the model of the query are not part of the two source
  files; they are modelled from the specification, component by component. Time is a
  number of ticks (\<open>int\<close>); the provider adapters, the normaliser, the hash function of
  the fingerprint and the time-to-live are parameters of the service.
\<close>

datatype error_kind = Unauthorized | RateLimited | Timeout | Unreachable | Malformed

datatype search_error = AllProvidersFailed "(SearchProvider \<times> error_kind) list"

subsection \<open>Fingerprint\<close>

text \<open>Modelled from the spec: the normalisation of the query text inside the fingerprint
  (not among the source files): letter case and surrounding whitespace are removed.\<close>

definition normalize_text :: "string \<Rightarrow> string" where
  "normalize_text s = lower (strip s)"

type_synonym fingerprint_key = "string \<times> string list \<times> SearchProvider option \<times> int"

text \<open>Modelled from the spec: the tuple the fingerprint hashes (not among the source files):
  normalized text, sorted domain filters, provider selection, limit.\<close>

definition fingerprint_key :: "SearchQuery \<Rightarrow> fingerprint_key" where
  "fingerprint_key q = (normalize_text (query q), sort (domains q), provider q, limit q)"

text \<open>Modelled from the spec: the fingerprint of a query (not among the source files), a
  deterministic hash \<open>H\<close> of the tuple above, used as the key of the cache.\<close>

definition fingerprint :: "(fingerprint_key \<Rightarrow> string) \<Rightarrow> SearchQuery \<Rightarrow> string" where
  "fingerprint H q = H (fingerprint_key q)"

subsection \<open>Two hash functions\<close>

text \<open>The hash of the fingerprint is a parameter. Two instances of it: \<open>serialise\<close>
  writes the tuple out, each part with its length in front, and is collision-free;
  \<open>checksum\<close> keeps one character, the sum of the character codes of the serialisation,
  and is a hash of fixed width.\<close>

definition enc_nat :: "nat \<Rightarrow> string" where
  "enc_nat n = replicate n (CHR ''1'') @ ''0''"

definition enc_str :: "string \<Rightarrow> string" where
  "enc_str s = enc_nat (length s) @ s"





subsection \<open>Cache store\<close>

text \<open>Modelled from the spec: a cache entry (not among the source files): fingerprint, ordered
  results, creation timestamp, provider tag used.\<close>

record cache_entry =
  entry_fingerprint :: string
  entry_results :: "SearchResult list"
  created_at :: int
  provider_tag :: SearchProvider

text \<open>Modelled from the spec: the cache store (not among the source files) is a table with one
  row per fingerprint.\<close>

type_synonym cache = "cache_entry list"

definition cache_wf :: "cache \<Rightarrow> bool" where
  "cache_wf c = distinct (map entry_fingerprint c)"

text \<open>Modelled from the spec: an entry is stale when its age exceeds the TTL (not among the
  source files).\<close>

definition expired :: "int \<Rightarrow> int \<Rightarrow> cache_entry \<Rightarrow> bool" where
  "expired ttl now e = (now - created_at e > ttl)"

text \<open>Modelled from the spec: \<open>get(fingerprint)\<close> of the cache store (not among the source files):
  the entry or a miss; an entry whose age exceeds the TTL is a miss.\<close>

definition cache_get :: "int \<Rightarrow> int \<Rightarrow> string \<Rightarrow> cache \<Rightarrow> cache_entry option" where
  "cache_get ttl now f c =
     (case find (\<lambda>e. entry_fingerprint e = f) c of
        None \<Rightarrow> None
      | Some e \<Rightarrow> if expired ttl now e then None else Some e)"

text \<open>Modelled from the spec: \<open>put(fingerprint, results, provider-tag)\<close> of the cache
  store (not among the source files): an upsert that records the current time.\<close>

definition cache_put :: "int \<Rightarrow> string \<Rightarrow> SearchResult list \<Rightarrow> SearchProvider \<Rightarrow> cache \<Rightarrow> cache" where
  "cache_put now f rs tag c =
     filter (\<lambda>e. entry_fingerprint e \<noteq> f) c
     @ [\<lparr>entry_fingerprint = f, entry_results = rs, created_at = now, provider_tag = tag\<rparr>]"

text \<open>Modelled from the spec: \<open>cleanup()\<close> of the cache store (not among the source files): deletes
  all entries whose age exceeds the TTL and returns the number deleted.\<close>

definition cleanup :: "int \<Rightarrow> int \<Rightarrow> cache \<Rightarrow> nat \<times> cache" where
  "cleanup ttl now c =
     (length (filter (expired ttl now) c), filter (\<lambda>e. \<not> expired ttl now e) c)"

subsection \<open>Query router\<close>

text \<open>Modelled from the spec: \<open>select(query)\<close> of the query router (not among the source files):
  an explicit selection is used as it is; otherwise a text that matches a video-hosting
  pattern goes to the transcript provider and every other text to web search.\<close>

definition select :: "SearchQuery \<Rightarrow> SearchProvider list" where
  "select q =
     (case provider q of
        Some p \<Rightarrow> [p]
      | None \<Rightarrow>
          if list_ex (\<lambda>pattern. contains pattern (lower (query q))) video_patterns
          then [YOUTUBE] else [TAVILY])"

subsection \<open>Deduplication\<close>

datatype dedup_key = ByUrl string | ByText string string

text \<open>Modelled from the spec: the key results are deduplicated by (not among the source files):
  the URL when present, else the normalized title and snippet.\<close>

definition dedup_key :: "SearchResult \<Rightarrow> dedup_key" where
  "dedup_key r =
     (case url r of
        Some u \<Rightarrow> ByUrl u
      | None \<Rightarrow> ByText (normalize_text (title r)) (normalize_text (snippet r)))"

text \<open>Modelled from the spec: deduplication in first-seen order (not among the source files);
  \<open>seen\<close> holds the keys of the results kept so far.\<close>

fun dedup_from :: "dedup_key list \<Rightarrow> SearchResult list \<Rightarrow> SearchResult list" where
  "dedup_from seen [] = []"
| "dedup_from seen (r # rs) =
     (if dedup_key r \<in> set seen then dedup_from seen rs
      else r # dedup_from (dedup_key r # seen) rs)"

definition deduplicate :: "SearchResult list \<Rightarrow> SearchResult list" where
  "deduplicate rs = dedup_from [] rs"

subsection \<open>Orchestrator\<close>

text \<open>The collaborators of the service: the TTL of the cache, the hash of the
  fingerprint, the router, the adapters' \<open>fetch\<close> (native items, or a failure kind) and
  the normaliser of each provider.\<close>

record 'n service_deps =
  cache_ttl :: int
  hash :: "fingerprint_key \<Rightarrow> string"
  router :: "SearchQuery \<Rightarrow> SearchProvider list"
  fetch :: "SearchProvider \<Rightarrow> SearchQuery \<Rightarrow> error_kind + 'n list"
  normalize :: "SearchProvider \<Rightarrow> 'n \<Rightarrow> SearchResult"

text \<open>Modelled from the spec: the fan-in step of the orchestrator (not among the source files):
  the recorded failures, in dispatch order.\<close>

fun failures :: "(SearchProvider \<times> (error_kind + 'n list)) list \<Rightarrow> (SearchProvider \<times> error_kind) list" where
  "failures [] = []"
| "failures ((p, Inl k) # os) = (p, k) # failures os"
| "failures ((p, Inr items) # os) = failures os"

text \<open>Modelled from the spec: the fan-in step of the orchestrator (not among the source files):
  the successful outcomes, in dispatch order.\<close>

fun successes :: "(SearchProvider \<times> (error_kind + 'n list)) list \<Rightarrow> (SearchProvider \<times> 'n list) list" where
  "successes [] = []"
| "successes ((p, Inl k) # os) = successes os"
| "successes ((p, Inr items) # os) = (p, items) # successes os"

text \<open>Modelled from the spec: normalisation and collection of the successful outcomes
  (not among the source files), in dispatch order, then each provider's own order.\<close>

definition collect :: "'n service_deps \<Rightarrow> (SearchProvider \<times> 'n list) list \<Rightarrow> SearchResult list" where
  "collect S ok = concat (map (\<lambda>(p, items). map (normalize S p) items) ok)"

text \<open>Modelled from the spec: \<open>search(query, use_cache)\<close> of the orchestrator (not among the
  source files), steps 1 to 8: fingerprint; a live cache entry is returned at once; else the
  router's providers are fetched, the successes normalised and collected, deduplicated
  and truncated to the limit; the result is cached when at least one provider succeeded,
  and an aggregate failure is returned, with nothing cached, when all failed.\<close>

definition search ::
  "'n service_deps \<Rightarrow> int \<Rightarrow> SearchQuery \<Rightarrow> bool \<Rightarrow> cache \<Rightarrow> (search_error + SearchResult list) \<times> cache" where
  "search S now q use_cache c =
     (let f = fingerprint (hash S) q
      in case (if use_cache then cache_get (cache_ttl S) now f c else None) of
           Some e \<Rightarrow> (Inr (entry_results e), c)
         | None \<Rightarrow>
             let outcomes = map (\<lambda>p. (p, fetch S p q)) (router S q)
             in case successes outcomes of
                  [] \<Rightarrow> (Inl (AllProvidersFailed (failures outcomes)), c)
                | (p, items) # ok \<Rightarrow>
                    let rs = take (nat (limit q))
                               (deduplicate (collect S ((p, items) # ok)))
                    in (Inr rs, cache_put now f rs p c))"

text \<open>Modelled from the spec: \<open>cleanup_cache()\<close> of the orchestrator (not among the source files)
  delegates to the cache store.\<close>

definition cleanup_cache :: "'n service_deps \<Rightarrow> int \<Rightarrow> cache \<Rightarrow> nat \<times> cache" where
  "cleanup_cache S now c = cleanup (cache_ttl S) now c"

subsection \<open>Reference notions for the orchestrator's outcome\<close>



section \<open>Properties of the string operations\<close>

lemma contains_iff_sublist: "contains p s \<longleftrightarrow> sublist p s"
  by (induction s) (auto simp: sublist_Cons_right)

lemma dropWhile_all_iff: "(\<forall>x\<in>set (dropWhile P s). P x) \<longleftrightarrow> (\<forall>x\<in>set s. P x)"
proof
  assume h: "\<forall>x\<in>set (dropWhile P s). P x"
  have "dropWhile P s = []"
  proof (rule ccontr)
    assume ne: "dropWhile P s \<noteq> []"
    then have "\<not> P (hd (dropWhile P s))" by (rule hd_dropWhile)
    moreover have "hd (dropWhile P s) \<in> set (dropWhile P s)" using ne by simp
    ultimately show False using h by blast
  qed
  then show "\<forall>x\<in>set s. P x" by (simp add: dropWhile_eq_Nil_conv)
next
  assume "\<forall>x\<in>set s. P x"
  then show "\<forall>x\<in>set (dropWhile P s). P x" by (meson set_dropWhileD)
qed

lemma strip_empty_iff: "strip s = [] \<longleftrightarrow> list_all isspace s"
  by (simp add: strip_def rstrip_def lstrip_def dropWhile_eq_Nil_conv list_all_iff dropWhile_all_iff)

section \<open>Properties of the presentation layer\<close>

lemma sublist_lower_iff: "sublist p (lower q) \<longleftrightarrow> (\<exists>w. sublist w q \<and> lower w = p)"
  unfolding lower_def using sublist_map_rightE [of p lower_chr q] map_mono_sublist [of _ q lower_chr]
  by auto

lemma determine_provider_simps:
  "determine_provider ''Tavily'' = Some TAVILY"
  "determine_provider ''Groq'' = Some GROQ"
  "determine_provider ''YouTube'' = Some YOUTUBE"
  "determine_provider ''Auto'' = None"
  by (simp_all add: determine_provider_def)

lemma auto_detect_explicit: "prov \<noteq> ''Auto'' \<Longrightarrow> auto_detect prov qry = prov"
  by (simp add: auto_detect_def)

lemma auto_detect_Auto:
  "auto_detect ''Auto'' qry =
     (if sublist ''youtube.com'' (lower qry) \<or> sublist ''youtu.be'' (lower qry)
      then ''YouTube'' else ''Tavily'')"
  by (simp add: auto_detect_def video_patterns_def contains_iff_sublist)

lemma calls_perform_search:
  "strip qry \<noteq> [] \<Longrightarrow>
   calls (perform_search svc now qry prov n doms a) =
     calls a @ [\<lparr>query = strip qry, domains = doms,
                 provider = determine_provider prov, limit = n\<rparr>]"
  by (simp add: perform_search_def Let_def split: prod.splits sum.splits)

lemma calls_render_search_interface:
  "search_button \<Longrightarrow> strip qry \<noteq> [] \<Longrightarrow>
   calls (render_search_interface svc now search_button qry prov n doms a) =
     calls a @ [\<lparr>query = strip qry, domains = doms,
                 provider = determine_provider (auto_detect prov qry), limit = n\<rparr>]"
  by (simp add: render_search_interface_def calls_perform_search)

lemma calls_render_search_interface_idle:
  "\<not> (search_button \<and> strip qry \<noteq> []) \<Longrightarrow>
   render_search_interface svc now search_button qry prov n doms a = a"
  by (auto simp: render_search_interface_def)

text \<open>
  C1. With the provider choice "Auto" (no explicit selection), the provider of the
  query is decided by the text alone: when the text contains, up to letter case, one of
  the host patterns \<open>youtube.com\<close> or \<open>youtu.be\<close>, it is the transcript provider
  (YouTube), otherwise web search (Tavily); the text-analysis provider (Groq) is never
  chosen. When the search is triggered, the query handed to the service carries exactly
  that provider.
\<close>

theorem auto_detect_routing:
  "determine_provider (auto_detect ''Auto'' qry) =
     (if \<exists>w. sublist w qry \<and> (lower w = ''youtube.com'' \<or> lower w = ''youtu.be'')
      then Some YOUTUBE else Some TAVILY)
   \<and> determine_provider (auto_detect ''Auto'' qry) \<noteq> Some GROQ
   \<and> (search_button \<and> strip qry \<noteq> [] \<longrightarrow>
        calls (render_search_interface svc now search_button qry ''Auto'' n doms a) =
          calls a @ [\<lparr>query = strip qry, domains = doms,
                      provider = (if contains ''youtube.com'' (lower qry)
                                     \<or> contains ''youtu.be'' (lower qry)
                                  then Some YOUTUBE else Some TAVILY),
                      limit = n\<rparr>])"
proof -
  have e: "(\<exists>w. sublist w qry \<and> (lower w = ''youtube.com'' \<or> lower w = ''youtu.be''))
           \<longleftrightarrow> sublist ''youtube.com'' (lower qry) \<or> sublist ''youtu.be'' (lower qry)"
    by (auto simp: sublist_lower_iff)
  have r: "determine_provider (auto_detect ''Auto'' qry) =
             (if sublist ''youtube.com'' (lower qry) \<or> sublist ''youtu.be'' (lower qry)
              then Some YOUTUBE else Some TAVILY)"
    by (simp add: auto_detect_Auto determine_provider_simps)
  show ?thesis
    unfolding e using r by (simp add: calls_render_search_interface contains_iff_sublist)
qed

theorem auto_detect_routing_witness:
  "(True \<and> strip ''https://www.youtube.com/watch?v=abc123'' \<noteq> [])
   \<and> calls (render_search_interface (\<lambda>q b w. (Inr [], w)) 0 True
               ''https://www.youtube.com/watch?v=abc123'' ''Auto'' 10 []
               \<lparr>session = init_session_state, shown = [], calls = [], world = ()\<rparr>) =
        [\<lparr>query = ''https://www.youtube.com/watch?v=abc123'', domains = [],
          provider = Some YOUTUBE, limit = 10\<rparr>]
   \<and> calls (render_search_interface (\<lambda>q b w. (Inr [], w)) 0 True
               '' Quantum computing'' ''Auto'' 10 []
               \<lparr>session = init_session_state, shown = [], calls = [], world = ()\<rparr>) =
        [\<lparr>query = ''Quantum computing'', domains = [],
          provider = Some TAVILY, limit = 10\<rparr>]"
proof -
  have s1: "strip ''https://www.youtube.com/watch?v=abc123'' = ''https://www.youtube.com/watch?v=abc123''"
    by code_simp
  have s2: "strip '' Quantum computing'' = ''Quantum computing''"
    by code_simp
  have c1: "contains ''youtube.com'' (lower ''https://www.youtube.com/watch?v=abc123'')"
    by code_simp
  have c2: "\<not> contains ''youtube.com'' (lower '' Quantum computing'')"
           "\<not> contains ''youtu.be'' (lower '' Quantum computing'')"
    by code_simp+
  show ?thesis
    using auto_detect_routing [of "''https://www.youtube.com/watch?v=abc123''" True
            "\<lambda>q b w. (Inr [], w)" 0 10 "[]"
            "\<lparr>session = init_session_state, shown = [], calls = [], world = ()\<rparr>"]
          auto_detect_routing [of "'' Quantum computing''" True
            "\<lambda>q b w. (Inr [], w)" 0 10 "[]"
            "\<lparr>session = init_session_state, shown = [], calls = [], world = ()\<rparr>"]
    by (simp add: s1 s2 c1 c2)
qed

text \<open>
  C6. An explicit provider choice (Tavily, Groq or YouTube) is passed on as it is,
  whatever the query text looks like: the query built by \<open>perform_search\<close>, and the one
  dispatched from the search interface, carry exactly the chosen provider.
\<close>

theorem explicit_provider_routing:
  assumes "(prov, p) \<in> {(''Tavily'', TAVILY), (''Groq'', GROQ), (''YouTube'', YOUTUBE)}"
  shows "determine_provider (auto_detect prov qry) = Some p
   \<and> (strip qry \<noteq> [] \<longrightarrow>
        calls (perform_search svc now qry prov n doms a) =
          calls a @ [\<lparr>query = strip qry, domains = doms, provider = Some p, limit = n\<rparr>])
   \<and> (search_button \<and> strip qry \<noteq> [] \<longrightarrow>
        calls (render_search_interface svc now search_button qry prov n doms a) =
          calls a @ [\<lparr>query = strip qry, domains = doms, provider = Some p, limit = n\<rparr>])"
proof -
  from assms have ne: "prov \<noteq> ''Auto''" by auto
  from assms have dp: "determine_provider prov = Some p"
    by (auto simp: determine_provider_simps)
  show ?thesis
    using dp by (simp add: auto_detect_explicit [OF ne] calls_perform_search
        calls_render_search_interface)
qed

theorem explicit_provider_routing_witness:
  "(''Tavily'', TAVILY) \<in> {(''Tavily'', TAVILY), (''Groq'', GROQ), (''YouTube'', YOUTUBE)}
   \<and> (True \<and> strip ''https://youtu.be/abc123'' \<noteq> [])
   \<and> calls (render_search_interface (\<lambda>q b w. (Inr [], w)) 0 True
               ''https://youtu.be/abc123'' ''Tavily'' 5 []
               \<lparr>session = init_session_state, shown = [], calls = [], world = ()\<rparr>) =
        [\<lparr>query = ''https://youtu.be/abc123'', domains = [],
          provider = Some TAVILY, limit = 5\<rparr>]"
proof -
  have s1: "strip ''https://youtu.be/abc123'' = ''https://youtu.be/abc123''"
    by code_simp
  show ?thesis
    using explicit_provider_routing [of "''Tavily''" TAVILY "''https://youtu.be/abc123''"
            "\<lambda>q b w. (Inr [], w)" 0 5 "[]"
            "\<lparr>session = init_session_state, shown = [], calls = [], world = ()\<rparr>" True]
    by (simp add: s1)
qed

lemma determine_provider_option:
  assumes "prov \<in> set provider_options"
  shows "\<exists>p. determine_provider (auto_detect prov qry) = Some p
             \<and> (prov = ''Auto'' \<longrightarrow> p = YOUTUBE \<or> p = TAVILY)"
proof (cases "prov = ''Auto''")
  case True
  then show ?thesis by (simp add: auto_detect_Auto determine_provider_simps)
next
  case False
  with assms have "prov = ''Tavily'' \<or> prov = ''Groq'' \<or> prov = ''YouTube''"
    by (auto simp: provider_options_def)
  then show ?thesis
    using False by (auto simp: auto_detect_explicit determine_provider_simps)
qed

text \<open>
  C8. Routing is total and deterministic: for every choice of the provider select box
  and every query text that triggers a search there is one provider \<open>p\<close> such that, in
  every application state, with every service behind it, at every time and for every
  limit and domain filter, exactly one query is dispatched and it carries \<open>p\<close>.
\<close>

theorem routing_total_deterministic:
  assumes "prov \<in> set provider_options" and "search_button" and "strip qry \<noteq> []"
  shows "\<exists>p. \<forall>svc now n doms a. \<exists>sq.
            calls (render_search_interface svc now search_button qry prov n doms a) =
              calls a @ [sq]
            \<and> provider sq = Some p"
proof -
  from determine_provider_option [OF assms(1)]
  obtain p where "determine_provider (auto_detect prov qry) = Some p" by blast
  then show ?thesis
    using assms(2,3) by (auto simp: calls_render_search_interface)
qed

theorem routing_total_deterministic_witness:
  "''Auto'' \<in> set provider_options \<and> True \<and> strip ''quantum computing'' \<noteq> []
   \<and> (\<exists>p. \<forall>svc now n doms (a :: unit app). \<exists>sq.
          calls (render_search_interface svc now True ''quantum computing'' ''Auto'' n doms a) =
            calls a @ [sq]
          \<and> provider sq = Some p)"
proof -
  have h1: "''Auto'' \<in> set provider_options" by (simp add: provider_options_def)
  have h3: "strip ''quantum computing'' \<noteq> []" by code_simp
  show ?thesis
    using h1 h3 routing_total_deterministic [OF h1 TrueI h3] by simp
qed

text \<open>
  C9. Every query dispatched from the search interface carries a provider: a run of the
  interface either hands no query to the service, or exactly one, whose provider field is
  set; for the choice "Auto" it is YouTube or Tavily.
\<close>

theorem dispatched_query_has_provider:
  assumes "prov \<in> set provider_options"
  shows "calls (render_search_interface svc now search_button qry prov n doms a) = calls a
     \<or> (\<exists>sq p. calls (render_search_interface svc now search_button qry prov n doms a) =
                  calls a @ [sq]
               \<and> provider sq = Some p
               \<and> (prov = ''Auto'' \<longrightarrow> p = YOUTUBE \<or> p = TAVILY))"
proof (cases "search_button \<and> strip qry \<noteq> []")
  case True
  from determine_provider_option [OF assms]
  obtain p where "determine_provider (auto_detect prov qry) = Some p"
    "prov = ''Auto'' \<longrightarrow> p = YOUTUBE \<or> p = TAVILY" by blast
  then show ?thesis
    using True by (simp add: calls_render_search_interface)
next
  case False
  then show ?thesis
    by (simp add: calls_render_search_interface_idle)
qed

theorem dispatched_query_has_provider_witness:
  "''Groq'' \<in> set provider_options
   \<and> calls (render_search_interface (\<lambda>q b w. (Inr [], w)) 0 True ''rust'' ''Groq'' 5 []
               \<lparr>session = init_session_state, shown = [], calls = [], world = ()\<rparr>) =
       [\<lparr>query = ''rust'', domains = [], provider = Some GROQ, limit = 5\<rparr>]
   \<and> (\<exists>sq p. calls (render_search_interface (\<lambda>q b w. (Inr [], w)) 0 True ''rust'' ''Groq'' 5 []
               \<lparr>session = init_session_state, shown = [], calls = [], world = ()\<rparr>) = [sq]
             \<and> provider sq = Some p)"
proof -
  have h1: "''Groq'' \<in> set provider_options" by (simp add: provider_options_def)
  have s: "strip ''rust'' = ''rust''" by code_simp
  have c: "calls (render_search_interface (\<lambda>q b w. (Inr [], w)) 0 True ''rust'' ''Groq'' 5 []
               \<lparr>session = init_session_state, shown = [], calls = [], world = ()\<rparr>) =
       [\<lparr>query = ''rust'', domains = [], provider = Some GROQ, limit = 5\<rparr>]"
    by (simp add: calls_render_search_interface s auto_detect_explicit determine_provider_simps)
  show ?thesis
    using h1 c dispatched_query_has_provider [OF h1, of "\<lambda>q b w. (Inr [], w)" 0 True "''rust''" 5 "[]"
            "\<lparr>session = init_session_state, shown = [], calls = [], world = ()\<rparr>"]
    by auto
qed

text \<open>
  C10. When the query string is empty or consists of whitespace only,
  \<open>perform_search\<close> shows the error and returns: no query is handed to the service,
  the service state is untouched, and the session state (results, history, last query) is
  unchanged. The search interface itself does nothing at all on such a query.
\<close>

theorem blank_query_no_search:
  assumes "list_all isspace qry"
  shows "perform_search svc now qry prov n doms a =
           a\<lparr>shown := shown a @ [Error ''Please enter a search query'']\<rparr>
     \<and> session (perform_search svc now qry prov n doms a) = session a
     \<and> calls (perform_search svc now qry prov n doms a) = calls a
     \<and> world (perform_search svc now qry prov n doms a) = world a
     \<and> render_search_interface svc now search_button qry prov n doms a = a"
proof -
  from assms have "strip qry = []" by (simp add: strip_empty_iff)
  then show ?thesis
    by (simp add: perform_search_def render_search_interface_def)
qed

theorem blank_query_no_search_witness:
  "list_all isspace ''   ''
   \<and> perform_search (\<lambda>q b w. (Inr [], w)) 0 ''   '' ''Tavily'' 5 []
        \<lparr>session = init_session_state, shown = [], calls = [], world = ()\<rparr> =
      \<lparr>session = init_session_state, shown = [Error ''Please enter a search query''],
       calls = [], world = ()\<rparr>"
proof -
  have h: "list_all isspace ''   ''" by code_simp
  show ?thesis
    using h blank_query_no_search [OF h, of "\<lambda>q b w. (Inr [], w)" 0 "''Tavily''" 5 "[]"
            "\<lparr>session = init_session_state, shown = [], calls = [], world = ()\<rparr>"]
    by simp
qed

section \<open>Properties of the search service\<close>

lemma dedup_from_keys:
  "set (map dedup_key (dedup_from seen rs)) = set (map dedup_key rs) - set seen"
  by (induction rs arbitrary: seen) auto

lemma dedup_from_distinct: "distinct (map dedup_key (dedup_from seen rs))"
proof (induction rs arbitrary: seen)
  case Nil
  show ?case by simp
next
  case (Cons r rs)
  have "dedup_key r \<notin> set (map dedup_key (dedup_from (dedup_key r # seen) rs))"
    unfolding dedup_from_keys by simp
  with Cons show ?case by simp
qed

lemma dedup_from_subseq: "subseq (dedup_from seen rs) rs"
  by (induction rs arbitrary: seen) auto

lemma dedup_from_first:
  "r \<in> set (dedup_from seen rs) \<Longrightarrow> find (\<lambda>x. dedup_key x = dedup_key r) rs = Some r"
proof (induction rs arbitrary: seen)
  case Nil
  then show ?case by simp
next
  case (Cons x xs)
  show ?case
  proof (cases "dedup_key x \<in> set seen")
    case True
    with Cons.prems have m: "r \<in> set (dedup_from seen xs)" by simp
    then have "dedup_key r \<in> set (map dedup_key (dedup_from seen xs))" by simp
    then have "dedup_key r \<notin> set seen" unfolding dedup_from_keys by simp
    with True have "dedup_key x \<noteq> dedup_key r" by auto
    with Cons.IH [OF m] show ?thesis by simp
  next
    case False
    with Cons.prems consider "r = x" | "r \<in> set (dedup_from (dedup_key x # seen) xs)"
      by auto
    then show ?thesis
    proof cases
      case 1
      then show ?thesis by simp
    next
      case 2
      then have "dedup_key r \<in> set (map dedup_key (dedup_from (dedup_key x # seen) xs))"
        by simp
      then have "dedup_key x \<noteq> dedup_key r" unfolding dedup_from_keys by auto
      with Cons.IH [OF 2] show ?thesis by simp
    qed
  qed
qed

lemma dedup_key_eq_iff:
  "dedup_key r1 = dedup_key r2 \<longleftrightarrow>
     (\<exists>u. url r1 = Some u \<and> url r2 = Some u)
     \<or> (url r1 = None \<and> url r2 = None
        \<and> normalize_text (title r1) = normalize_text (title r2)
        \<and> normalize_text (snippet r1) = normalize_text (snippet r2))"
  by (auto simp: dedup_key_def split: option.splits)

text \<open>
  C7. Deduplication keeps one result per key, the first seen, in the original order:
  the keys of the output are pairwise different, every key of the input is still present,
  the output is a subsequence of the input, and each result kept is the first result of
  the input with its key. Two results have the same key exactly when both carry the same
  URL, or neither carries a URL and their normalized titles and snippets agree.
\<close>

theorem deduplicate_first_seen:
  "distinct (map dedup_key (deduplicate rs))
   \<and> set (map dedup_key (deduplicate rs)) = set (map dedup_key rs)
   \<and> subseq (deduplicate rs) rs
   \<and> (\<forall>r \<in> set (deduplicate rs). find (\<lambda>x. dedup_key x = dedup_key r) rs = Some r)
   \<and> (\<forall>r1 r2. dedup_key r1 = dedup_key r2 \<longleftrightarrow>
         (\<exists>u. url r1 = Some u \<and> url r2 = Some u)
         \<or> (url r1 = None \<and> url r2 = None
            \<and> normalize_text (title r1) = normalize_text (title r2)
            \<and> normalize_text (snippet r1) = normalize_text (snippet r2)))"
  unfolding deduplicate_def
  using dedup_from_distinct [of "[]" rs] dedup_from_keys [of "[]" rs]
    dedup_from_subseq [of "[]" rs] dedup_from_first [of _ "[]" rs] dedup_key_eq_iff
  by auto

theorem deduplicate_first_seen_witness:
  "deduplicate
     [\<lparr>title = ''A'', url = Some ''https://x.org/1'', snippet = ''s'', result_provider = TAVILY, metadata = []\<rparr>,
      \<lparr>title = ''B'', url = Some ''https://x.org/1'', snippet = ''t'', result_provider = YOUTUBE, metadata = []\<rparr>,
      \<lparr>title = ''Note'', url = None, snippet = ''body'', result_provider = GROQ, metadata = []\<rparr>,
      \<lparr>title = '' NOTE '', url = None, snippet = ''Body'', result_provider = GROQ, metadata = []\<rparr>]
   = [\<lparr>title = ''A'', url = Some ''https://x.org/1'', snippet = ''s'', result_provider = TAVILY, metadata = []\<rparr>,
      \<lparr>title = ''Note'', url = None, snippet = ''body'', result_provider = GROQ, metadata = []\<rparr>]
   \<and> list_all (\<lambda>r. find (\<lambda>x. dedup_key x = dedup_key r)
     [\<lparr>title = ''A'', url = Some ''https://x.org/1'', snippet = ''s'', result_provider = TAVILY, metadata = []\<rparr>,
      \<lparr>title = ''B'', url = Some ''https://x.org/1'', snippet = ''t'', result_provider = YOUTUBE, metadata = []\<rparr>,
      \<lparr>title = ''Note'', url = None, snippet = ''body'', result_provider = GROQ, metadata = []\<rparr>,
      \<lparr>title = '' NOTE '', url = None, snippet = ''Body'', result_provider = GROQ, metadata = []\<rparr>] = Some r)
     (deduplicate
     [\<lparr>title = ''A'', url = Some ''https://x.org/1'', snippet = ''s'', result_provider = TAVILY, metadata = []\<rparr>,
      \<lparr>title = ''B'', url = Some ''https://x.org/1'', snippet = ''t'', result_provider = YOUTUBE, metadata = []\<rparr>,
      \<lparr>title = ''Note'', url = None, snippet = ''body'', result_provider = GROQ, metadata = []\<rparr>,
      \<lparr>title = '' NOTE '', url = None, snippet = ''Body'', result_provider = GROQ, metadata = []\<rparr>])"
proof -
  have n1: "normalize_text '' NOTE '' = ''note''" "normalize_text ''Note'' = ''note''"
           "normalize_text ''Body'' = ''body''" "normalize_text ''body'' = ''body''"
    by code_simp+
  have e: "deduplicate
     [\<lparr>title = ''A'', url = Some ''https://x.org/1'', snippet = ''s'', result_provider = TAVILY, metadata = []\<rparr>,
      \<lparr>title = ''B'', url = Some ''https://x.org/1'', snippet = ''t'', result_provider = YOUTUBE, metadata = []\<rparr>,
      \<lparr>title = ''Note'', url = None, snippet = ''body'', result_provider = GROQ, metadata = []\<rparr>,
      \<lparr>title = '' NOTE '', url = None, snippet = ''Body'', result_provider = GROQ, metadata = []\<rparr>]
   = [\<lparr>title = ''A'', url = Some ''https://x.org/1'', snippet = ''s'', result_provider = TAVILY, metadata = []\<rparr>,
      \<lparr>title = ''Note'', url = None, snippet = ''body'', result_provider = GROQ, metadata = []\<rparr>]"
    by (simp add: deduplicate_def dedup_key_def n1)
  show ?thesis
    using e deduplicate_first_seen [of "[\<lparr>title = ''A'', url = Some ''https://x.org/1'', snippet = ''s'', result_provider = TAVILY, metadata = []\<rparr>,
      \<lparr>title = ''B'', url = Some ''https://x.org/1'', snippet = ''t'', result_provider = YOUTUBE, metadata = []\<rparr>,
      \<lparr>title = ''Note'', url = None, snippet = ''body'', result_provider = GROQ, metadata = []\<rparr>,
      \<lparr>title = '' NOTE '', url = None, snippet = ''Body'', result_provider = GROQ, metadata = []\<rparr>]"]
    unfolding list_all_iff by blast
qed

lemma cache_wf_Nil: "cache_wf []"
  by (simp add: cache_wf_def)

lemma cache_wf_put: "cache_wf c \<Longrightarrow> cache_wf (cache_put now f rs tag c)"
  by (auto simp: cache_wf_def cache_put_def distinct_map_filter)

lemma cache_wf_cleanup: "cache_wf c \<Longrightarrow> cache_wf (snd (cleanup ttl now c))"
  by (simp add: cache_wf_def cleanup_def distinct_map_filter)

lemma find_in_wf:
  "distinct (map entry_fingerprint c) \<Longrightarrow> e \<in> set c \<Longrightarrow>
   find (\<lambda>x. entry_fingerprint x = entry_fingerprint e) c = Some e"
  by (induction c) (auto simp: rev_image_eqI)

lemma find_None_iff_fp:
  "find (\<lambda>x. entry_fingerprint x = f) c = None \<longleftrightarrow> f \<notin> entry_fingerprint ` set c"
  by (auto simp: find_None_iff)

lemma find_append_fp:
  "find P (xs @ ys) = (case find P xs of None \<Rightarrow> find P ys | Some x \<Rightarrow> Some x)"
  by (induction xs) auto

lemma cache_get_put:
  "cache_get ttl now f (cache_put now f rs tag c) =
     (if 0 > ttl then None
      else Some \<lparr>entry_fingerprint = f, entry_results = rs, created_at = now, provider_tag = tag\<rparr>)"
proof -
  have "find (\<lambda>e. entry_fingerprint e = f) (filter (\<lambda>e. entry_fingerprint e \<noteq> f) c) = None"
    by (simp add: find_None_iff)
  then show ?thesis
    by (simp add: cache_get_def cache_put_def find_append_fp expired_def)
qed

text \<open>
  C4. In a cache with one entry per fingerprint, take any entry and any time \<open>now\<close>
  later than its creation time plus the TTL. Then a lookup of its fingerprint at \<open>now\<close>
  is a miss; a cleanup at \<open>now\<close> deletes the entry, after which no lookup of the
  fingerprint finds anything; and the count that cleanup returns is the number of entries
  whose age exceeds the TTL at \<open>now\<close>, which is at least one, and is the number of rows
  that disappear from the table.
\<close>

theorem ttl_expiry:
  assumes wf: "cache_wf c" and mem: "e \<in> set c" and late: "created_at e + ttl < now"
  shows "cache_get ttl now (entry_fingerprint e) c = None
     \<and> e \<notin> set (snd (cleanup ttl now c))
     \<and> (\<forall>t. cache_get ttl t (entry_fingerprint e) (snd (cleanup ttl now c)) = None)
     \<and> fst (cleanup ttl now c) = card {x \<in> set c. ttl < now - created_at x}
     \<and> 1 \<le> fst (cleanup ttl now c)
     \<and> length (snd (cleanup ttl now c)) + fst (cleanup ttl now c) = length c"
proof -
  from wf have d: "distinct (map entry_fingerprint c)" by (simp add: cache_wf_def)
  then have dc: "distinct c" by (simp add: distinct_map)
  from late have ex: "expired ttl now e" by (simp add: expired_def)
  have g: "cache_get ttl now (entry_fingerprint e) c = None"
    using find_in_wf [OF d mem] ex by (simp add: cache_get_def)
  have r: "e \<notin> set (snd (cleanup ttl now c))"
    using ex by (simp add: cleanup_def)
  have "entry_fingerprint e \<notin> entry_fingerprint ` set (snd (cleanup ttl now c))"
  proof
    assume "entry_fingerprint e \<in> entry_fingerprint ` set (snd (cleanup ttl now c))"
    then obtain x where x: "x \<in> set c" "\<not> expired ttl now x"
      "entry_fingerprint x = entry_fingerprint e"
      by (auto simp: cleanup_def)
    with d mem have "x = e" by (meson distinct_map inj_onD)
    with x ex show False by simp
  qed
  then have "find (\<lambda>x. entry_fingerprint x = entry_fingerprint e) (snd (cleanup ttl now c)) = None"
    by (simp only: find_None_iff_fp not_False_eq_True)
  then have a: "\<forall>t. cache_get ttl t (entry_fingerprint e) (snd (cleanup ttl now c)) = None"
    by (simp add: cache_get_def)
  have n: "fst (cleanup ttl now c) = card {x \<in> set c. ttl < now - created_at x}"
    using dc by (simp add: cleanup_def expired_def distinct_length_filter Int_def conj_commute)
  have "e \<in> set (filter (expired ttl now) c)" using mem ex by simp
  then have "0 < length (filter (expired ttl now) c)" by (rule length_pos_if_in_set)
  then have o: "1 \<le> fst (cleanup ttl now c)"
    by (simp add: cleanup_def Suc_le_eq)
  have l: "length (snd (cleanup ttl now c)) + fst (cleanup ttl now c) = length c"
    using sum_length_filter_compl [of "expired ttl now" c] by (simp add: cleanup_def)
  from g r a n o l show ?thesis by blast
qed

theorem ttl_expiry_witness:
  "cache_wf (cache_put 100 ''fp1'' [] TAVILY (cache_put 950 ''fp2'' [] GROQ []))
   \<and> \<lparr>entry_fingerprint = ''fp1'', entry_results = [], created_at = 100, provider_tag = TAVILY\<rparr>
       \<in> set (cache_put 100 ''fp1'' [] TAVILY (cache_put 950 ''fp2'' [] GROQ []))
   \<and> (100::int) + 60 < 1000
   \<and> cache_get 60 1000 ''fp1'' (cache_put 100 ''fp1'' [] TAVILY (cache_put 950 ''fp2'' [] GROQ [])) = None
   \<and> cleanup 60 1000 (cache_put 100 ''fp1'' [] TAVILY (cache_put 950 ''fp2'' [] GROQ [])) =
       (1, [\<lparr>entry_fingerprint = ''fp2'', entry_results = [], created_at = 950, provider_tag = GROQ\<rparr>])"
proof -
  let ?c = "cache_put 100 ''fp1'' [] TAVILY (cache_put 950 ''fp2'' [] GROQ [])"
  let ?e = "\<lparr>entry_fingerprint = ''fp1'', entry_results = [], created_at = 100, provider_tag = TAVILY\<rparr>"
  have wf: "cache_wf ?c" by (simp add: cache_wf_def cache_put_def)
  have mem: "?e \<in> set ?c" by (simp add: cache_put_def)
  have late: "created_at ?e + 60 < 1000" by simp
  have cl: "cleanup 60 1000 ?c =
       (1, [\<lparr>entry_fingerprint = ''fp2'', entry_results = [], created_at = 950, provider_tag = GROQ\<rparr>])"
    by (simp add: cleanup_def cache_put_def expired_def)
  show ?thesis
    using wf mem cl ttl_expiry [OF wf mem late] by simp
qed













lemma enc_str_nonempty: "enc_str s @ r \<noteq> []"
  by (simp add: enc_str_def enc_nat_def)







lemma failures_all_failed:
  "\<forall>p \<in> set ps. isl (f p) \<Longrightarrow>
   failures (map (\<lambda>p. (p, f p)) ps) = map (\<lambda>p. (p, projl (f p))) ps
   \<and> successes (map (\<lambda>p. (p, f p)) ps) = []"
proof (induction ps)
  case Nil
  show ?case by simp
next
  case (Cons p ps)
  then obtain k where "f p = Inl k" by (cases "f p") auto
  with Cons show ?case by simp
qed




lemma search_miss:
  assumes "use_cache \<longrightarrow> cache_get (cache_ttl S) now (fingerprint (hash S) q) c = None"
  shows "search S now q use_cache c =
     (case successes (map (\<lambda>p. (p, fetch S p q)) (router S q)) of
        [] \<Rightarrow> (Inl (AllProvidersFailed (failures (map (\<lambda>p. (p, fetch S p q)) (router S q)))), c)
      | (p, items) # ok \<Rightarrow>
          (Inr (take (nat (limit q)) (deduplicate (collect S ((p, items) # ok)))),
           cache_put now (fingerprint (hash S) q)
             (take (nat (limit q)) (deduplicate (collect S ((p, items) # ok)))) p c))"
  using assms by (auto simp: search_def Let_def split: list.splits)

lemma search_hit:
  assumes "use_cache" and "cache_get (cache_ttl S) now (fingerprint (hash S) q) c = Some e"
  shows "search S now q use_cache c = (Inr (entry_results e), c)"
  using assms by (simp add: search_def)

text \<open>
  C2. When the cache gives no live entry (or is not consulted) and every provider the
  router selects fails, \<open>search\<close> returns the aggregate failure \<open>AllProvidersFailed\<close>
  listing every selected provider with the failure kind of its adapter, in dispatch order,
  and the cache is returned unchanged.
\<close>

theorem all_providers_failed:
  assumes miss: "use_cache \<longrightarrow> cache_get (cache_ttl S) now (fingerprint (hash S) q) c = None"
    and fail: "\<forall>p \<in> set (router S q). isl (fetch S p q)"
  shows "search S now q use_cache c =
           (Inl (AllProvidersFailed (map (\<lambda>p. (p, projl (fetch S p q))) (router S q))), c)
     \<and> (\<forall>p \<in> set (router S q). fetch S p q = Inl (projl (fetch S p q)))"
proof -
  from failures_all_failed [of "router S q" "\<lambda>p. fetch S p q", OF fail]
  have "search S now q use_cache c =
           (Inl (AllProvidersFailed (map (\<lambda>p. (p, projl (fetch S p q))) (router S q))), c)"
    by (simp add: search_miss [OF miss])
  moreover from fail have "\<forall>p \<in> set (router S q). fetch S p q = Inl (projl (fetch S p q))"
    by simp
  ultimately show ?thesis by blast
qed

theorem all_providers_failed_witness:
  "cache_get 60 0 ''rust'' [] = None
   \<and> select \<lparr>query = ''rust'', domains = [], provider = Some TAVILY, limit = 5\<rparr> = [TAVILY]
   \<and> isl (Inl Unauthorized :: error_kind + SearchResult list)
   \<and> search \<lparr>cache_ttl = 60, hash = (\<lambda>(t, ds, p, n). t), router = select,
              fetch = (\<lambda>p q. Inl Unauthorized), normalize = (\<lambda>p (x :: SearchResult). x)\<rparr>
        0 \<lparr>query = ''rust'', domains = [], provider = Some TAVILY, limit = 5\<rparr> True []
      = (Inl (AllProvidersFailed [(TAVILY, Unauthorized)]), [])"
proof -
  let ?S = "\<lparr>cache_ttl = 60, hash = (\<lambda>(t, ds, p, n). t), router = select,
              fetch = (\<lambda>p q. Inl Unauthorized), normalize = (\<lambda>p (x :: SearchResult). x)\<rparr>"
  let ?q = "\<lparr>query = ''rust'', domains = [], provider = Some TAVILY, limit = 5\<rparr>"
  have miss: "True \<longrightarrow> cache_get (cache_ttl ?S) 0 (fingerprint (hash ?S) ?q) [] = None"
    by (simp add: cache_get_def)
  have fail: "\<forall>p \<in> set (router ?S ?q). isl (fetch ?S p ?q)"
    by simp
  have r: "router ?S ?q = [TAVILY]" by (simp add: select_def)
  show ?thesis
    using all_providers_failed [OF miss fail] r by (simp add: cache_get_def)
qed





end
